theory Spec2Isabelle
  imports Main "HOL-Library.Word"
begin

section \<open>JavaScript values and strings\<close>

text \<open>
  A JavaScript string is a sequence of UTF-16 code units: \<open>substring\<close> counts code
  units, and a regular expression without the \<open>u\<close> flag matches code units.
\<close>

type_synonym code_unit = "16 word"
type_synonym js_string = "code_unit list"

text \<open>An ASCII literal of the source, as code units.\<close>

definition str :: "string \<Rightarrow> js_string" where
  "str s = map of_char s"

text \<open>
  The values a handler argument can hold. The payload of a number and the identity of
  an object are never inspected by the functions below.
\<close>

datatype js_value =
    JUndefined
  | JNull
  | JBoolean bool
  | JNumber int
  | JString js_string
  | JObject nat

datatype js_type = TyUndefined | TyObject | TyBoolean | TyNumber | TyString

fun typeof :: "js_value \<Rightarrow> js_type" where
  "typeof JUndefined = TyUndefined"
| "typeof JNull = TyObject"
| "typeof (JBoolean b) = TyBoolean"
| "typeof (JNumber n) = TyNumber"
| "typeof (JString s) = TyString"
| "typeof (JObject r) = TyObject"

section \<open>Security.sanitizeMessage\<close>

text \<open>The character class \<^verbatim>\<open>[\x00-\x1F\x7F]\<close>.\<close>

definition isControl :: "code_unit \<Rightarrow> bool" where
  "isControl c \<longleftrightarrow> c \<le> 0x1F \<or> c = 0x7F"

text \<open>
  What \<^verbatim>\<open>String.prototype.trim\<close> removes: the WhiteSpace and LineTerminator code
  points of ECMAScript (TAB, LF, VT, FF, CR, SP, NBSP, the space separators, LS, PS, BOM).
\<close>

definition isWhiteSpace :: "code_unit \<Rightarrow> bool" where
  "isWhiteSpace c \<longleftrightarrow>
     c = 0x09 \<or> c = 0x0A \<or> c = 0x0B \<or> c = 0x0C \<or> c = 0x0D \<or> c = 0x20 \<or> c = 0xA0 \<or>
     c = 0x1680 \<or> (0x2000 \<le> c \<and> c \<le> 0x200A) \<or> c = 0x2028 \<or> c = 0x2029 \<or>
     c = 0x202F \<or> c = 0x205F \<or> c = 0x3000 \<or> c = 0xFEFF"

text \<open>\<^verbatim>\<open>.replace(/[\x00-\x1F\x7F]/g, '')\<close>\<close>

definition removeControl :: "js_string \<Rightarrow> js_string" where
  "removeControl s = filter (\<lambda>c. \<not> isControl c) s"

definition trimStart :: "js_string \<Rightarrow> js_string" where
  "trimStart s = dropWhile isWhiteSpace s"

definition trimEnd :: "js_string \<Rightarrow> js_string" where
  "trimEnd s = rev (dropWhile isWhiteSpace (rev s))"

text \<open>\<^verbatim>\<open>.trim()\<close>\<close>

definition trim :: "js_string \<Rightarrow> js_string" where
  "trim s = trimEnd (trimStart s)"

text \<open>\<^verbatim>\<open>.substring(0, n)\<close> for a non-negative integer \<open>n\<close>.\<close>

definition substring0 :: "nat \<Rightarrow> js_string \<Rightarrow> js_string" where
  "substring0 n s = take n s"

definition sanitizeMessage :: "js_value \<Rightarrow> js_string" where
  "sanitizeMessage message =
     (if typeof message \<noteq> TyString then []
      else case message of
             JString s \<Rightarrow> substring0 280 (trim (removeControl s))
           | _ \<Rightarrow> [])"

text \<open>A text of 281 code units: 279 letters \<open>a\<close>, a space and a letter \<open>b\<close>.\<close>

definition longText :: js_string where
  "longText = replicate 279 0x61 @ [0x20, 0x62]"

section \<open>Security.createRateLimiter\<close>

text \<open>
  The closure's \<^verbatim>\<open>requests\<close> map, from key to the array of recorded timestamps
  (milliseconds, as \<^verbatim>\<open>Date.now()\<close> returns them). The clock reading is a
  parameter of every check.
\<close>

type_synonym requests = "js_string \<rightharpoonup> int list"

text \<open>
  \<^verbatim>\<open>while (userRequests.length && userRequests[0] < windowStart) userRequests.shift();\<close>
\<close>

fun shiftOld :: "int \<Rightarrow> int list \<Rightarrow> int list" where
  "shiftOld windowStart [] = []"
| "shiftOld windowStart (t # ts) =
     (if t < windowStart then shiftOld windowStart ts else t # ts)"

text \<open>
  One call of the limiter returned by \<^verbatim>\<open>createRateLimiter(maxRequests, windowMs)\<close>:
  the answer and the map as the call leaves it.
\<close>

definition rateLimiter ::
  "nat \<Rightarrow> int \<Rightarrow> requests \<Rightarrow> js_string \<Rightarrow> int \<Rightarrow> bool \<times> requests" where
  "rateLimiter maxRequests windowMs reqs key now =
     (let windowStart = now - windowMs;
          reqs1 = (if reqs key = None then reqs(key \<mapsto> []) else reqs);
          userRequests = shiftOld windowStart (case reqs1 key of Some ts \<Rightarrow> ts | None \<Rightarrow> [])
      in if maxRequests \<le> length userRequests
         then (False, reqs1(key \<mapsto> userRequests))
         else (True, reqs1(key \<mapsto> userRequests @ [now])))"

text \<open>
  A series of checks, each with its key and its clock reading, oldest first: the answers
  and the map after the last one.
\<close>

fun checks ::
  "nat \<Rightarrow> int \<Rightarrow> requests \<Rightarrow> (js_string \<times> int) list \<Rightarrow> bool list \<times> requests" where
  "checks maxRequests windowMs reqs [] = ([], reqs)"
| "checks maxRequests windowMs reqs ((key, now) # cs) =
     (let verdict = rateLimiter maxRequests windowMs reqs key now;
          rest = checks maxRequests windowMs (snd verdict) cs
      in (fst verdict # fst rest, snd rest))"

text \<open>The timestamps recorded for a key; none when the key is not in the map.\<close>

definition recorded :: "requests \<Rightarrow> js_string \<Rightarrow> int list" where
  "recorded reqs key = (case reqs key of Some ts \<Rightarrow> ts | None \<Rightarrow> [])"

text \<open>
  Every recorded sequence has at most \<open>m\<close> entries, is in non-decreasing order and
  holds no reading later than \<open>hi\<close>.
\<close>

definition windowInv :: "nat \<Rightarrow> int \<Rightarrow> requests \<Rightarrow> bool" where
  "windowInv m hi R \<longleftrightarrow>
     (\<forall>k ts. R k = Some ts \<longrightarrow> length ts \<le> m \<and> sorted ts \<and> (\<forall>t\<in>set ts. t \<le> hi))"

section \<open>NostrClient\<close>

text \<open>
  The event template handed to \<^verbatim>\<open>finalizeEvent\<close>. The identifier, public key and
  signature that the library adds are functions of these fields and of the secret key.
\<close>

record nostr_event =
  kind :: nat
  content :: js_string
  tags :: "js_string list list"
  created_at :: int

text \<open>The object that \<^verbatim>\<open>publishMessage\<close> and \<^verbatim>\<open>_publishToRelays\<close> return.\<close>

record publish_result =
  success :: bool
  published :: nat
  failed :: nat

text \<open>
  What a call does beyond its result, oldest first: the event built and signed, and
  every operation on a relay connection. How one relay answers is the environment's choice.
\<close>

datatype effect =
    FinalizeEvent nostr_event
  | RelayConnect js_string
  | RelayPublish js_string nostr_event
  | RelayClose js_string

fun isNetworkCall :: "effect \<Rightarrow> bool" where
  "isNetworkCall (FinalizeEvent e) = False"
| "isNetworkCall (RelayConnect url) = True"
| "isNetworkCall (RelayPublish url e) = True"
| "isNetworkCall (RelayClose url) = True"

datatype relay_behaviour = ConnectRejects | PublishRejects | Accepts

datatype error = ConnectError js_string | PublishError js_string

text \<open>
  \<^verbatim>\<open>_publishToRelay\<close>: a rejected \<^verbatim>\<open>Relay.connect\<close> leaves before the \<^verbatim>\<open>try\<close>;
  after it the \<^verbatim>\<open>finally\<close> closes the relay on both paths. \<open>Inl\<close> is a rejected promise.
\<close>

fun publishToRelay ::
  "js_string \<Rightarrow> nostr_event \<Rightarrow> relay_behaviour \<Rightarrow> (error + js_string) \<times> effect list" where
  "publishToRelay url event ConnectRejects = (Inl (ConnectError url), [RelayConnect url])"
| "publishToRelay url event PublishRejects =
     (Inl (PublishError url), [RelayConnect url, RelayPublish url event, RelayClose url])"
| "publishToRelay url event Accepts =
     (Inr url, [RelayConnect url, RelayPublish url event, RelayClose url])"

text \<open>The \<^verbatim>\<open>status\<close> of one entry of \<^verbatim>\<open>Promise.allSettled\<close>.\<close>

fun fulfilled :: "error + 'a \<Rightarrow> bool" where
  "fulfilled (Inr v) = True"
| "fulfilled (Inl e) = False"

fun rejected :: "error + 'a \<Rightarrow> bool" where
  "rejected (Inr v) = False"
| "rejected (Inl e) = True"

text \<open>
  \<^verbatim>\<open>_publishToRelays\<close>: \<open>net i\<close> is how the relay at position \<open>i\<close> of the list answers
  this attempt. The attempts are in flight together; the trace lists them relay by relay.
\<close>

definition publishToRelays ::
  "js_string list \<Rightarrow> (nat \<Rightarrow> relay_behaviour) \<Rightarrow> nostr_event
     \<Rightarrow> (error + publish_result) \<times> effect list" where
  "publishToRelays relayList net event =
     (let results = map (\<lambda>i. publishToRelay (relayList ! i) event (net i)) [0..<length relayList];
          successful = length (filter fulfilled (map fst results));
          failedCount = length (filter rejected (map fst results))
      in (Inr \<lparr>success = 0 < successful, published = successful, failed = failedCount\<rparr>,
          concat (map snd results)))"

record nostr_client =
  nsec :: js_string
  relays :: "js_string list"
  testMode :: bool

definition buildEvent :: "js_string \<Rightarrow> js_string list list \<Rightarrow> int \<Rightarrow> nostr_event" where
  "buildEvent text extraTags now =
     \<lparr>kind = 1, content = text,
      tags = [[str ''t'', str ''sirlibre''], [str ''t'', str ''librerelaybot'']] @ extraTags,
      created_at = now div 1000\<rparr>"

definition publishMessage ::
  "nostr_client \<Rightarrow> int \<Rightarrow> (nat \<Rightarrow> relay_behaviour) \<Rightarrow> js_string \<Rightarrow> js_string list list
     \<Rightarrow> (error + publish_result) \<times> effect list" where
  "publishMessage c now net text extraTags =
     (let event = buildEvent text extraTags now
      in if testMode c
         then (Inr \<lparr>success = True, published = 0, failed = 0\<rparr>, [FinalizeEvent event])
         else (case publishToRelays (relays c) net event of
                 (r, tr) \<Rightarrow> (r, FinalizeEvent event # tr)))"

section \<open>LibreRelayBotBridge\<close>

record config =
  channels :: "js_string list"
  targetBot :: js_string
  nostrNsec :: js_string
  nostrRelays :: "js_string list"
  appTestMode :: bool

record stats =
  messagesMonitored :: nat
  successfulPosts :: nat
  failedPosts :: nat
  lastActivity :: "int option"

record bridge =
  bridgeConfig :: config
  bridgeStats :: stats
  nostrClient :: "nostr_client option"
  rateLimiterRequests :: requests

text \<open>
  The configuration the \<^verbatim>\<open>Config\<close> constructor builds when the environment sets
  only the channel, the target bot, the key and the test flag; the relay list is the default of
  \<^verbatim>\<open>parseRelays\<close>.
\<close>

definition defaultRelays :: "js_string list" where
  "defaultRelays =
     [str ''wss://relay.damus.io'', str ''wss://relay.nostr.band'', str ''wss://nostr.mom'',
      str ''wss://relay.primal.net'', str ''wss://chadf.nostr1.com'']"

definition configFor :: "js_string \<Rightarrow> js_string \<Rightarrow> js_string \<Rightarrow> bool \<Rightarrow> config" where
  "configFor channel botName key test =
     \<lparr>channels = [channel], targetBot = botName, nostrNsec = key, nostrRelays = defaultRelays,
      appTestMode = test\<rparr>"

text \<open>The defaults of the constructor: \<^verbatim>\<open>#SirLibre\<close> and \<^verbatim>\<open>LibreRelayBot\<close>.\<close>

definition defaultConfig :: "js_string \<Rightarrow> bool \<Rightarrow> config" where
  "defaultConfig key test = configFor (str ''#SirLibre'') (str ''LibreRelayBot'') key test"

text \<open>
  A key that \<^verbatim>\<open>validate\<close> and \<^verbatim>\<open>nip19.decode\<close> accept: the bech32 form, with its
  checksum, of the secret key 1.
\<close>

definition sampleNsec :: js_string where
  "sampleNsec = str ''nsec1qqqqqqqqqqqqqqqqqqqqqqqqqqqqqqqqqqqqqqqqqqqqqqqqqqqsmhltgl''"

text \<open>The bridge as its constructor leaves it.\<close>

definition newBridge :: "config \<Rightarrow> bridge" where
  "newBridge cfg =
     \<lparr>bridgeConfig = cfg,
      bridgeStats = \<lparr>messagesMonitored = 0, successfulPosts = 0, failedPosts = 0,
                     lastActivity = None\<rparr>,
      nostrClient = None, rateLimiterRequests = Map.empty\<rparr>"

text \<open>
  \<^verbatim>\<open>_initializeNostrClient\<close>, for a key that \<^verbatim>\<open>nip19.decode\<close> accepts; with any
  other key the constructor throws and \<^verbatim>\<open>start\<close> ends the process.
\<close>

definition initializeNostrClient :: "bridge \<Rightarrow> bridge" where
  "initializeNostrClient b =
     b\<lparr>nostrClient :=
         Some \<lparr>nsec = nostrNsec (bridgeConfig b), relays = nostrRelays (bridgeConfig b),
               testMode = appTestMode (bridgeConfig b)\<rparr>\<rparr>"

text \<open>
  \<^verbatim>\<open>_postToNostr\<close>: a rejected publish is caught and counted as a failed post.
\<close>

definition postToNostr ::
  "bridge \<Rightarrow> nostr_client \<Rightarrow> int \<Rightarrow> (nat \<Rightarrow> relay_behaviour) \<Rightarrow> js_value
     \<Rightarrow> bridge \<times> effect list" where
  "postToNostr b c now net message =
     (let sanitizedMessage = sanitizeMessage message
      in if sanitizedMessage = [] then (b, [])
         else (case publishMessage c now net sanitizedMessage [] of
                 (Inr result, tr) \<Rightarrow>
                   if success result
                   then (b\<lparr>bridgeStats := (bridgeStats b)
                            \<lparr>successfulPosts := successfulPosts (bridgeStats b) + 1\<rparr>\<rparr>, tr)
                   else (b\<lparr>bridgeStats := (bridgeStats b)
                            \<lparr>failedPosts := failedPosts (bridgeStats b) + 1\<rparr>\<rparr>, tr)
               | (Inl e, tr) \<Rightarrow>
                   (b\<lparr>bridgeStats := (bridgeStats b)
                       \<lparr>failedPosts := failedPosts (bridgeStats b) + 1\<rparr>\<rparr>, tr)))"

text \<open>
  \<^verbatim>\<open>_handleIRCMessage(from, to, message)\<close> at clock reading \<open>now\<close>, which stands for
  every reading of the clock during the call; the limiter is the one the constructor makes,
  \<^verbatim>\<open>createRateLimiter(5, 60000)\<close>. The argument \<open>to\<close> is never read.
\<close>

definition handleIRCMessage ::
  "bridge \<Rightarrow> int \<Rightarrow> (nat \<Rightarrow> relay_behaviour) \<Rightarrow> js_string \<Rightarrow> js_string \<Rightarrow> js_value
     \<Rightarrow> bridge \<times> effect list" where
  "handleIRCMessage b now net from to message =
     (if from \<noteq> targetBot (bridgeConfig b) then (b, [])
      else
        let b1 = b\<lparr>bridgeStats := (bridgeStats b)
                    \<lparr>messagesMonitored := messagesMonitored (bridgeStats b) + 1,
                     lastActivity := Some now\<rparr>\<rparr>;
            verdict = rateLimiter 5 60000 (rateLimiterRequests b1) from now;
            b2 = b1\<lparr>rateLimiterRequests := snd verdict\<rparr>
        in if \<not> fst verdict then (b2, [])
           else (case nostrClient b2 of
                   None \<Rightarrow> (b2, [])
                 | Some c \<Rightarrow> postToNostr b2 c now net message))"

text \<open>The message reached the publisher: \<^verbatim>\<open>publishMessage\<close> was called.\<close>

fun isPublishCall :: "effect \<Rightarrow> bool" where
  "isPublishCall (FinalizeEvent e) = True"
| "isPublishCall (RelayConnect url) = False"
| "isPublishCall (RelayPublish url e) = False"
| "isPublishCall (RelayClose url) = False"

definition relayed :: "bridge \<times> effect list \<Rightarrow> bool" where
  "relayed r \<longleftrightarrow> filter isPublishCall (snd r) \<noteq> []"

text \<open>The relays a trace tried to connect to, in the order of the trace.\<close>

fun attempted :: "effect list \<Rightarrow> js_string list" where
  "attempted [] = []"
| "attempted (RelayConnect url # es) = url # attempted es"
| "attempted (FinalizeEvent e # es) = attempted es"
| "attempted (RelayPublish url e # es) = attempted es"
| "attempted (RelayClose url # es) = attempted es"

text \<open>
  Two bridges after \<^verbatim>\<open>_initializeNostrClient\<close>: the default one, and one set up for
  another channel and another bot.
\<close>

definition liveBridge :: bridge where
  "liveBridge = initializeNostrClient (newBridge (defaultConfig sampleNsec False))"

definition otherBridge :: bridge where
  "otherBridge =
     initializeNostrClient (newBridge
       (configFor (str ''#BowlAfterBowl'') (str ''BoostAfterBoost'') sampleNsec False))"

text \<open>A client with the five default relays, live and in test mode.\<close>

definition liveClient :: nostr_client where
  "liveClient = \<lparr>nsec = sampleNsec, relays = defaultRelays, testMode = False\<rparr>"

definition dryClient :: nostr_client where
  "dryClient = \<lparr>nsec = sampleNsec, relays = defaultRelays, testMode = True\<rparr>"

text \<open>A network where the second relay refuses the connection and the fourth the event.\<close>

definition twoFail :: "nat \<Rightarrow> relay_behaviour" where
  "twoFail i = (if i = 1 then ConnectRejects else if i = 3 then PublishRejects else Accepts)"

section \<open>IRCClient\<close>

text \<open>
  The fields of the connection object. \<open>client\<close> holds the identity of the current
  \<^verbatim>\<open>irc.Client\<close> (the number of clients made before it). The handle of a
  \<^verbatim>\<open>setTimeout\<close> is never stored by the source, so the callbacks still to run are kept
  here, each with its delay in milliseconds; \<open>keepAliveLive\<close> counts the intervals of
  \<^verbatim>\<open>startKeepAlive\<close> that no \<^verbatim>\<open>clearInterval\<close> has stopped.
\<close>

datatype timeout_kind = ReconnectTimeout | ResetTimeout

record irc_client =
  client :: "nat option"
  isConnected :: bool
  reconnectAttempts :: nat
  reconnecting :: bool
  keepAliveInterval :: bool
  zncHealthInterval :: bool
  timeouts :: "(timeout_kind \<times> nat) list"
  keepAliveLive :: nat
  clientsCreated :: nat

definition maxReconnectAttempts :: nat where
  "maxReconnectAttempts = 10"

definition reconnectDelay :: nat where
  "reconnectDelay = 10000"

text \<open>The constructor.\<close>

definition newIRCClient :: irc_client where
  "newIRCClient =
     \<lparr>client = None, isConnected = False, reconnectAttempts = 0, reconnecting = False,
      keepAliveInterval = False, zncHealthInterval = False, timeouts = [],
      keepAliveLive = 0, clientsCreated = 0\<rparr>"

definition startKeepAlive :: "irc_client \<Rightarrow> irc_client" where
  "startKeepAlive s = s\<lparr>keepAliveInterval := True, keepAliveLive := keepAliveLive s + 1\<rparr>"

definition stopKeepAlive :: "irc_client \<Rightarrow> irc_client" where
  "stopKeepAlive s =
     (if keepAliveInterval s
      then s\<lparr>keepAliveInterval := False, keepAliveLive := keepAliveLive s - 1\<rparr>
      else s)"

text \<open>\<^verbatim>\<open>startZncHealthCheck\<close> is called nowhere, so this interval never ticks.\<close>

definition stopZncHealthCheck :: "irc_client \<Rightarrow> irc_client" where
  "stopZncHealthCheck s = (if zncHealthInterval s then s\<lparr>zncHealthInterval := False\<rparr> else s)"

definition disconnect :: "irc_client \<Rightarrow> irc_client" where
  "disconnect s =
     (let s1 = stopKeepAlive s;
          s2 = stopZncHealthCheck s1;
          s3 = s2\<lparr>reconnecting := False\<rparr>;
          s4 = (if client s3 \<noteq> None then s3\<lparr>client := None\<rparr> else s3)
      in s4\<lparr>isConnected := False\<rparr>)"

text \<open>
  \<^verbatim>\<open>connect\<close>: the old connection is dropped, a new client is made and the handlers of
  \<^verbatim>\<open>setupEventHandlers\<close> are put on it.
\<close>

definition connect :: "irc_client \<Rightarrow> irc_client" where
  "connect s =
     (let s1 = disconnect s
      in s1\<lparr>client := Some (clientsCreated s1), clientsCreated := clientsCreated s1 + 1\<rparr>)"

definition attemptReconnect :: "irc_client \<Rightarrow> irc_client" where
  "attemptReconnect s =
     (if reconnecting s then s
      else if reconnectAttempts s < maxReconnectAttempts
      then s\<lparr>reconnecting := True, reconnectAttempts := reconnectAttempts s + 1,
             timeouts := timeouts s @ [(ReconnectTimeout, reconnectDelay)]\<rparr>
      else stopKeepAlive s)"

text \<open>The callback that \<^verbatim>\<open>attemptReconnect\<close> gives to \<^verbatim>\<open>setTimeout\<close>.\<close>

definition reconnectCallback :: "irc_client \<Rightarrow> irc_client" where
  "reconnectCallback s =
     (let s1 = s\<lparr>reconnecting := False\<rparr>
      in if \<not> isConnected s1 then connect s1 else s1)"

definition resetAndReconnect :: "irc_client \<Rightarrow> irc_client" where
  "resetAndReconnect s =
     (let s1 = s\<lparr>reconnectAttempts := 0, reconnecting := False\<rparr>;
          s2 = disconnect s1
      in s2\<lparr>timeouts := timeouts s2 @ [(ResetTimeout, 2000)]\<rparr>)"

fun timeoutCallback :: "timeout_kind \<Rightarrow> irc_client \<Rightarrow> irc_client" where
  "timeoutCallback ReconnectTimeout s = reconnectCallback s"
| "timeoutCallback ResetTimeout s = connect s"

text \<open>
  One tick of the keep-alive interval; \<open>sendOk\<close> tells whether \<^verbatim>\<open>client.send\<close>
  returned without throwing.
\<close>

definition keepAliveTick :: "bool \<Rightarrow> irc_client \<Rightarrow> irc_client" where
  "keepAliveTick sendOk s =
     (if isConnected s \<and> client s \<noteq> None
      then (if sendOk then s else attemptReconnect (s\<lparr>isConnected := False\<rparr>))
      else if \<not> isConnected s \<and> reconnectAttempts s < maxReconnectAttempts
      then attemptReconnect s
      else s)"

text \<open>
  \<^verbatim>\<open>postMessage\<close>; \<open>connOpen\<close> is the socket test of \<^verbatim>\<open>isConnectionActive\<close>, \<open>sayOk\<close>
  tells whether \<^verbatim>\<open>client.say\<close> returned without throwing.
\<close>

definition postMessage :: "bool \<Rightarrow> bool \<Rightarrow> irc_client \<Rightarrow> irc_client" where
  "postMessage connOpen sayOk s =
     (if client s = None \<or> \<not> isConnected s \<or> \<not> connOpen then s
      else if sayOk then s
      else attemptReconnect (s\<lparr>isConnected := False\<rparr>))"

text \<open>The handlers of \<^verbatim>\<open>setupEventHandlers\<close>.\<close>

definition onRegistered :: "irc_client \<Rightarrow> irc_client" where
  "onRegistered s = startKeepAlive (s\<lparr>isConnected := True, reconnectAttempts := 0\<rparr>)"

definition onError :: "irc_client \<Rightarrow> irc_client" where
  "onError s = s\<lparr>isConnected := False\<rparr>"

definition onClose :: "irc_client \<Rightarrow> irc_client" where
  "onClose s = attemptReconnect (stopKeepAlive (s\<lparr>isConnected := False\<rparr>))"

definition onDisconnect :: "irc_client \<Rightarrow> irc_client" where
  "onDisconnect s = stopKeepAlive (s\<lparr>isConnected := False\<rparr>)"

text \<open>
  What can happen to the connection object: an event of the current client (its
  listeners are removed with it), a timeout or interval that is due, or a call by the
  owner, the bridge (which calls \<^verbatim>\<open>resetAndReconnect\<close> from its own error handler, and
  \<^verbatim>\<open>disconnect\<close> on shutdown). \<open>step\<close> is \<open>None\<close> where the event cannot happen in that state; a timeout
  that has been set may fire at any later step, whatever its delay. The
  \<^verbatim>\<open>join\<close>, \<^verbatim>\<open>message\<close>, \<^verbatim>\<open>ping\<close> and \<^verbatim>\<open>pong\<close> handlers change no field.
\<close>

datatype irc_event =
    EvRegistered
  | EvJoin
  | EvError
  | EvClose
  | EvDisconnect
  | EvMessage
  | EvPing
  | EvPong
  | TimeoutFires timeout_kind nat
  | KeepAliveTick bool
  | CallConnect
  | CallDisconnect
  | CallResetAndReconnect
  | CallPostMessage bool bool

fun onClient :: "irc_client \<Rightarrow> (irc_client \<Rightarrow> irc_client) \<Rightarrow> irc_client option" where
  "onClient s handler = (if client s = None then None else Some (handler s))"

fun step :: "irc_client \<Rightarrow> irc_event \<Rightarrow> irc_client option" where
  "step s EvRegistered = onClient s onRegistered"
| "step s EvJoin = onClient s (\<lambda>s. s)"
| "step s EvError = onClient s onError"
| "step s EvClose = onClient s onClose"
| "step s EvDisconnect = onClient s onDisconnect"
| "step s EvMessage = onClient s (\<lambda>s. s)"
| "step s EvPing = onClient s (\<lambda>s. s)"
| "step s EvPong = onClient s (\<lambda>s. s)"
| "step s (TimeoutFires k d) =
     (if (k, d) \<in> set (timeouts s)
      then Some (timeoutCallback k (s\<lparr>timeouts := remove1 (k, d) (timeouts s)\<rparr>))
      else None)"
| "step s (KeepAliveTick sendOk) =
     (if 0 < keepAliveLive s then Some (keepAliveTick sendOk s) else None)"
| "step s CallConnect = Some (connect s)"
| "step s CallDisconnect = Some (disconnect s)"
| "step s CallResetAndReconnect = Some (resetAndReconnect s)"
| "step s (CallPostMessage connOpen sayOk) = Some (postMessage connOpen sayOk s)"

fun run :: "irc_client \<Rightarrow> irc_event list \<Rightarrow> irc_client option" where
  "run s [] = Some s"
| "run s (e # es) = (case step s e of None \<Rightarrow> None | Some s' \<Rightarrow> run s' es)"

text \<open>
  The events that leave a connection alone: everything but a completed registration and
  the owner's calls of \<^verbatim>\<open>connect\<close> and \<^verbatim>\<open>resetAndReconnect\<close>.
\<close>

fun quiet :: "irc_event \<Rightarrow> bool" where
  "quiet EvRegistered = False"
| "quiet CallConnect = False"
| "quiet CallResetAndReconnect = False"
| "quiet e = True"

text \<open>
  A connection that registers and is then closed, followed by \<open>n\<close> reconnect attempts:
  each time the timeout fires, \<^verbatim>\<open>connect\<close> runs and the new client is closed again.
\<close>

definition failedAttempts :: "nat \<Rightarrow> irc_event list" where
  "failedAttempts n =
     [CallConnect, EvRegistered, EvClose]
       @ concat (replicate n [TimeoutFires ReconnectTimeout reconnectDelay, EvClose])"

text \<open>
  The connection after \<open>k\<close> failed reconnect attempts, waiting for the timeout of the next.
\<close>

definition waiting :: "nat \<Rightarrow> irc_client" where
  "waiting k =
     \<lparr>client = Some k, isConnected = False, reconnectAttempts = Suc k, reconnecting = True,
      keepAliveInterval = False, zncHealthInterval = False,
      timeouts = [(ReconnectTimeout, reconnectDelay)], keepAliveLive = 0,
      clientsCreated = Suc k\<rparr>"

text \<open>The connection after the tenth failed attempt.\<close>

definition exhausted :: irc_client where
  "exhausted =
     \<lparr>client = Some 10, isConnected = False, reconnectAttempts = 10, reconnecting = False,
      keepAliveInterval = False, zncHealthInterval = False, timeouts = [],
      keepAliveLive = 0, clientsCreated = 11\<rparr>"

text \<open>The connection has given up: the attempts are used up and no timeout is left.\<close>

definition gaveUp :: "irc_client \<Rightarrow> bool" where
  "gaveUp s \<longleftrightarrow>
     maxReconnectAttempts \<le> reconnectAttempts s \<and> \<not> isConnected s \<and> timeouts s = []"

text \<open>
  What the bridge's \<^verbatim>\<open>uncaughtException\<close> handler does to the connection, by itself,
  5000 ms after an error whose message contains \<^verbatim>\<open>Cannot read properties of null\<close>: it
  calls \<^verbatim>\<open>resetAndReconnect\<close>, whose timeout of 2000 ms then fires.
\<close>

definition nullReferenceRecovery :: "irc_event list" where
  "nullReferenceRecovery = [CallResetAndReconnect, TimeoutFires ResetTimeout 2000]"

section \<open>Sanitization\<close>

lemma removeControl_fixed: "removeControl s = s \<longleftrightarrow> (\<forall>c\<in>set s. \<not> isControl c)"
  by (simp add: removeControl_def filter_id_conv)

lemma set_trimEnd: "set (trimEnd s) \<subseteq> set s"
  unfolding trimEnd_def using set_dropWhileD by fastforce

lemma set_trim: "set (trim s) \<subseteq> set s"
  unfolding trim_def trimStart_def using set_trimEnd set_dropWhileD by fastforce

lemma trimEnd_append_last: "\<not> isWhiteSpace c \<Longrightarrow> trimEnd (s @ [c]) = s @ [c]"
  by (simp add: trimEnd_def)

lemma trimEnd_fixed: "trimEnd s = s \<longleftrightarrow> (s = [] \<or> \<not> isWhiteSpace (last s))"
proof (cases s rule: rev_cases)
  case Nil
  then show ?thesis by (simp add: trimEnd_def)
next
  case (snoc ys y)
  show ?thesis
  proof (cases "isWhiteSpace y")
    case True
    have "length (trimEnd s) \<le> length ys"
      using snoc True length_dropWhile_le [of isWhiteSpace "rev ys"] by (simp add: trimEnd_def)
    then have "trimEnd s \<noteq> s" using snoc by auto
    then show ?thesis using snoc True by simp
  next
    case False
    then show ?thesis using snoc by (simp add: trimEnd_def)
  qed
qed

lemma last_trimEnd: "trimEnd s = [] \<or> \<not> isWhiteSpace (last (trimEnd s))"
proof -
  have "dropWhile isWhiteSpace (rev s) = []
          \<or> \<not> isWhiteSpace (hd (dropWhile isWhiteSpace (rev s)))"
    by (metis hd_dropWhile)
  then show ?thesis by (auto simp: trimEnd_def last_rev)
qed

lemma trimStart_fixed: "s = [] \<or> \<not> isWhiteSpace (hd s) \<Longrightarrow> trimStart s = s"
  by (cases s) (auto simp: trimStart_def)

lemma hd_trimStart: "trimStart s = [] \<or> \<not> isWhiteSpace (hd (trimStart s))"
  unfolding trimStart_def by (metis hd_dropWhile)

lemma trimEnd_Cons: "\<not> isWhiteSpace c \<Longrightarrow> trimEnd (c # s) = c # trimEnd s"
  unfolding trimEnd_def by (simp add: dropWhile_append)

lemma hd_trim: "trim s = [] \<or> \<not> isWhiteSpace (hd (trim s))"
proof (cases "trimStart s")
  case Nil
  then show ?thesis by (simp add: trim_def trimEnd_def)
next
  case (Cons c cs)
  then have "\<not> isWhiteSpace c" using hd_trimStart [of s] by simp
  then show ?thesis using Cons by (simp add: trim_def trimEnd_Cons)
qed

lemma sanitize_string: "sanitizeMessage (JString s) = take 280 (trim (removeControl s))"
  by (simp add: sanitizeMessage_def substring0_def)

lemma sanitize_other: "typeof v \<noteq> TyString \<Longrightarrow> sanitizeMessage v = []"
  by (simp add: sanitizeMessage_def)

lemma length_sanitize: "length (sanitizeMessage v) \<le> 280"
  by (cases v) (simp_all add: sanitizeMessage_def substring0_def)

text \<open>A second pass only trims the end of what the first pass returned.\<close>

lemma sanitize_twice:
  "sanitizeMessage (JString (sanitizeMessage (JString s))) = trimEnd (sanitizeMessage (JString s))"
proof -
  let ?y = "sanitizeMessage (JString s)"
  have ctl: "removeControl ?y = ?y"
  proof -
    have "set ?y \<subseteq> set (removeControl s)"
      unfolding sanitize_string using set_trim set_take_subset by fastforce
    then have "\<forall>c\<in>set ?y. \<not> isControl c" by (auto simp: removeControl_def)
    then show ?thesis by (simp only: removeControl_fixed)
  qed
  have hd: "?y = [] \<or> \<not> isWhiteSpace (hd ?y)"
    using hd_trim [of "removeControl s"] unfolding sanitize_string
    by (cases "trim (removeControl s)") auto
  have len: "length (trimEnd ?y) \<le> 280"
  proof -
    have "length (trimEnd ?y) \<le> length ?y"
      using length_dropWhile_le [of isWhiteSpace "rev ?y"] by (simp add: trimEnd_def)
    also have "\<dots> \<le> 280" by (rule length_sanitize)
    finally show ?thesis .
  qed
  have "sanitizeMessage (JString ?y) = take 280 (trimEnd (trimStart ?y))"
    by (simp add: sanitize_string [of ?y] ctl trim_def)
  also have "\<dots> = take 280 (trimEnd ?y)" using hd by (simp add: trimStart_fixed)
  also have "\<dots> = trimEnd ?y" using len by simp
  finally show ?thesis .
qed

lemma sanitize_idem_iff:
  "sanitizeMessage (JString (sanitizeMessage (JString s))) = sanitizeMessage (JString s)
     \<longleftrightarrow> (sanitizeMessage (JString s) = []
          \<or> \<not> isWhiteSpace (last (sanitizeMessage (JString s))))"
  by (simp only: sanitize_twice trimEnd_fixed)

lemma sanitize_short:
  assumes "length (trim (removeControl s)) \<le> 280"
  shows "sanitizeMessage (JString (sanitizeMessage (JString s))) = sanitizeMessage (JString s)"
proof -
  have "sanitizeMessage (JString s) = trimEnd (trimStart (removeControl s))"
    using assms by (simp add: sanitize_string trim_def)
  then have "sanitizeMessage (JString s) = []
               \<or> \<not> isWhiteSpace (last (sanitizeMessage (JString s)))"
    using last_trimEnd [of "trimStart (removeControl s)"] by simp
  then show ?thesis by (simp only: sanitize_idem_iff)
qed

lemma plain_units:
  "\<not> isControl 0x61" "\<not> isWhiteSpace 0x61" "\<not> isControl 0x20" "isWhiteSpace 0x20"
  "\<not> isControl 0x62" "\<not> isWhiteSpace 0x62"
  by (simp_all add: isControl_def isWhiteSpace_def)

lemma sanitize_longText: "sanitizeMessage (JString longText) = replicate 279 0x61 @ [0x20]"
proof -
  have 1: "removeControl longText = longText"
    by (auto simp: removeControl_fixed longText_def plain_units)
  have 2: "trimStart longText = longText"
    by (rule trimStart_fixed) (simp add: longText_def plain_units hd_append)
  have 3: "trimEnd longText = longText"
    using trimEnd_append_last [of "0x62" "replicate 279 0x61 @ [0x20]"]
    by (simp add: longText_def plain_units)
  show ?thesis by (simp add: sanitize_string 1 2 3 trim_def) (simp add: longText_def)
qed

text \<open>
  C3, as stated: sanitizing is idempotent on every input. It is not: the 281-unit text
  \<open>longText\<close> is cut after its space, and a second pass trims that space away.
\<close>

theorem sanitize_idempotent_counterexample:
  "sanitizeMessage (JString (sanitizeMessage (JString longText)))
     \<noteq> sanitizeMessage (JString longText)"
proof -
  have "sanitizeMessage (JString (sanitizeMessage (JString longText)))
          = trimEnd (sanitizeMessage (JString longText))"
    by (rule sanitize_twice)
  also have "\<dots> = trimEnd (replicate 279 0x61 @ [0x20])"
    by (simp only: sanitize_longText)
  also have "\<dots> = replicate 279 0x61"
    by (simp add: trimEnd_def plain_units)
  finally show ?thesis by (simp add: sanitize_longText)
qed

text \<open>
  C3, amended: sanitizing (strip control characters, trim, cut to 280 code units) a second
  time changes nothing exactly when the first result is empty or does not end in white
  space; this is so for every text whose stripped and trimmed form has at most 280 code units.
\<close>

theorem sanitize_idempotent_amended:
  "(length (trim (removeControl s)) \<le> 280 \<longrightarrow>
      sanitizeMessage (JString (sanitizeMessage (JString s))) = sanitizeMessage (JString s))
   \<and> (sanitizeMessage (JString (sanitizeMessage (JString s))) = sanitizeMessage (JString s)
        \<longleftrightarrow> (sanitizeMessage (JString s) = []
             \<or> \<not> isWhiteSpace (last (sanitizeMessage (JString s)))))"
  using sanitize_short [of s] sanitize_idem_iff [of s] by blast

theorem sanitize_idempotent_amended_witness:
  "length (trim (removeControl (str ''hi there''))) \<le> 280
   \<and> sanitizeMessage (JString (sanitizeMessage (JString (str ''hi there''))))
       = sanitizeMessage (JString (str ''hi there''))"
proof -
  have short: "length (trim (removeControl (str ''hi there''))) \<le> 280"
    by (simp add: str_def removeControl_def trim_def trimStart_def trimEnd_def
          isControl_def isWhiteSpace_def)
  with sanitize_idempotent_amended [of "str ''hi there''"] show ?thesis by blast
qed

text \<open>
  C9: for an argument that is not a string (null, undefined, a number, an object)
  \<open>sanitizeMessage\<close> returns the empty string, and the handler, which is total, ends
  without any call to the publisher.
\<close>

theorem sanitize_non_string:
  "typeof v \<noteq> TyString \<Longrightarrow>
     sanitizeMessage v = []
     \<and> snd (handleIRCMessage b now net from to v) = []
     \<and> \<not> relayed (handleIRCMessage b now net from to v)"
  by (simp add: relayed_def handleIRCMessage_def postToNostr_def sanitize_other Let_def
        split: option.splits)

theorem sanitize_non_string_witness:
  "typeof (JNumber 42) \<noteq> TyString
   \<and> sanitizeMessage (JNumber 42) = []
   \<and> \<not> relayed (handleIRCMessage (initializeNostrClient (newBridge (defaultConfig sampleNsec False)))
          1000 (\<lambda>i. Accepts) (str ''LibreRelayBot'') (str ''#SirLibre'') (JNumber 42))"
proof -
  have ty: "typeof (JNumber 42) \<noteq> TyString" by simp
  from sanitize_non_string [OF ty] show ?thesis using ty by blast
qed

section \<open>The sliding window\<close>

lemma rateLimiter_fst:
  "fst (rateLimiter m w R k now) \<longleftrightarrow> length (shiftOld (now - w) (recorded R k)) < m"
  by (auto simp: rateLimiter_def recorded_def Let_def)

lemma rateLimiter_same:
  "recorded (snd (rateLimiter m w R k now)) k =
     (if length (shiftOld (now - w) (recorded R k)) < m
      then shiftOld (now - w) (recorded R k) @ [now]
      else shiftOld (now - w) (recorded R k))"
  by (auto simp: rateLimiter_def recorded_def Let_def)

lemma rateLimiter_key_Some:
  "snd (rateLimiter m w R k now) k = Some (recorded (snd (rateLimiter m w R k now)) k)"
  by (auto simp: rateLimiter_def recorded_def Let_def)

lemma rateLimiter_other:
  "k' \<noteq> k \<Longrightarrow> snd (rateLimiter m w R k now) k' = R k'"
  by (auto simp: rateLimiter_def Let_def)

lemma shiftOld_keep: "\<forall>t\<in>set ts. w \<le> t \<Longrightarrow> shiftOld w ts = ts"
  by (cases ts) auto

lemma shiftOld_length: "length (shiftOld w ts) \<le> length ts"
  by (induction ts) auto

lemma shiftOld_set: "set (shiftOld w ts) \<subseteq> set ts"
  by (induction ts) auto

lemma shiftOld_sorted: "sorted ts \<Longrightarrow> sorted (shiftOld w ts)"
  by (induction ts) auto

lemma checks_Cons:
  "fst (checks m w R ((k, now) # cs))
     = fst (rateLimiter m w R k now) # fst (checks m w (snd (rateLimiter m w R k now)) cs)"
  "snd (checks m w R ((k, now) # cs)) = snd (checks m w (snd (rateLimiter m w R k now)) cs)"
  by (simp_all add: Let_def)

lemma accept_step:
  assumes "recorded R k = ts" and "\<forall>t\<in>set ts. now - w \<le> t" and "length ts < m"
  shows "fst (rateLimiter m w R k now)"
    and "recorded (snd (rateLimiter m w R k now)) k = ts @ [now]"
  using assms by (simp_all add: rateLimiter_fst rateLimiter_same shiftOld_keep)

lemma reject_step:
  assumes "recorded R k = ts" and "\<forall>t\<in>set ts. now - w \<le> t" and "m \<le> length ts"
  shows "\<not> fst (rateLimiter m w R k now)"
    and "recorded (snd (rateLimiter m w R k now)) k = ts"
  using assms by (simp_all add: rateLimiter_fst rateLimiter_same shiftOld_keep)

text \<open>
  C4: with at most 5 requests in a window of 60000 ms, and a sender with nothing recorded,
  five messages at readings \<open>t1 \<le> \<dots> \<le> t5\<close> are accepted and recorded, a sixth at
  \<open>t6 \<le> t1 + 60000\<close> is rejected and records nothing, and a message 61000 ms after the
  first is accepted.
\<close>

theorem rate_limit_window:
  assumes fresh: "recorded reqs key = []"
    and ord: "t1 \<le> t2" "t2 \<le> t3" "t3 \<le> t4" "t4 \<le> t5" "t5 \<le> t6"
    and within: "t6 \<le> t1 + 60000"
  shows "fst (checks 5 60000 reqs
             [(key, t1), (key, t2), (key, t3), (key, t4), (key, t5), (key, t6)])
           = [True, True, True, True, True, False]
       \<and> recorded (snd (checks 5 60000 reqs
             [(key, t1), (key, t2), (key, t3), (key, t4), (key, t5), (key, t6)])) key
           = [t1, t2, t3, t4, t5]
       \<and> fst (rateLimiter 5 60000 (snd (checks 5 60000 reqs
             [(key, t1), (key, t2), (key, t3), (key, t4), (key, t5), (key, t6)]))
             key (t1 + 61000))"
proof -
  define R1 where "R1 = snd (rateLimiter 5 60000 reqs key t1)"
  define R2 where "R2 = snd (rateLimiter 5 60000 R1 key t2)"
  define R3 where "R3 = snd (rateLimiter 5 60000 R2 key t3)"
  define R4 where "R4 = snd (rateLimiter 5 60000 R3 key t4)"
  define R5 where "R5 = snd (rateLimiter 5 60000 R4 key t5)"
  define R6 where "R6 = snd (rateLimiter 5 60000 R5 key t6)"
  have a1: "fst (rateLimiter 5 60000 reqs key t1)" and r1: "recorded R1 key = [t1]"
    unfolding R1_def using accept_step [OF fresh, of t1 60000 5] by simp_all
  have a2: "fst (rateLimiter 5 60000 R1 key t2)" and r2: "recorded R2 key = [t1, t2]"
    unfolding R2_def using accept_step [OF r1, of t2 60000 5] ord within by simp_all
  have a3: "fst (rateLimiter 5 60000 R2 key t3)" and r3: "recorded R3 key = [t1, t2, t3]"
    unfolding R3_def using accept_step [OF r2, of t3 60000 5] ord within by simp_all
  have a4: "fst (rateLimiter 5 60000 R3 key t4)" and r4: "recorded R4 key = [t1, t2, t3, t4]"
    unfolding R4_def using accept_step [OF r3, of t4 60000 5] ord within by simp_all
  have a5: "fst (rateLimiter 5 60000 R4 key t5)"
    and r5: "recorded R5 key = [t1, t2, t3, t4, t5]"
    unfolding R5_def using accept_step [OF r4, of t5 60000 5] ord within by simp_all
  have a6: "\<not> fst (rateLimiter 5 60000 R5 key t6)"
    and r6: "recorded R6 key = [t1, t2, t3, t4, t5]"
    unfolding R6_def using reject_step [OF r5, of t6 60000 5] ord within by simp_all
  have fin: "snd (checks 5 60000 reqs
      [(key, t1), (key, t2), (key, t3), (key, t4), (key, t5), (key, t6)]) = R6"
    by (simp only: checks_Cons checks.simps(1) snd_conv
          R1_def R2_def R3_def R4_def R5_def R6_def)
  have ans: "fst (checks 5 60000 reqs
      [(key, t1), (key, t2), (key, t3), (key, t4), (key, t5), (key, t6)])
      = [True, True, True, True, True, False]"
    using a1 a2 a3 a4 a5 a6
    by (simp add: checks_Cons R1_def [symmetric] R2_def [symmetric]
          R3_def [symmetric] R4_def [symmetric] R5_def [symmetric] del: checks.simps(2))
  have "length (shiftOld (t1 + 61000 - 60000) [t1, t2, t3, t4, t5]) \<le> 4"
    using shiftOld_length [of "t1 + 1000" "[t2, t3, t4, t5]"] by simp
  then have late: "fst (rateLimiter 5 60000 R6 key (t1 + 61000))"
    by (simp add: rateLimiter_fst r6)
  show ?thesis using ans r6 late by (simp only: fin)
qed

theorem rate_limit_window_witness:
  "recorded Map.empty (str ''LibreRelayBot'') = []
   \<and> fst (checks 5 60000 Map.empty
        [(str ''LibreRelayBot'', 1000), (str ''LibreRelayBot'', 2000),
         (str ''LibreRelayBot'', 3000), (str ''LibreRelayBot'', 4000),
         (str ''LibreRelayBot'', 5000), (str ''LibreRelayBot'', 61000)])
       = [True, True, True, True, True, False]
   \<and> recorded (snd (checks 5 60000 Map.empty
        [(str ''LibreRelayBot'', 1000), (str ''LibreRelayBot'', 2000),
         (str ''LibreRelayBot'', 3000), (str ''LibreRelayBot'', 4000),
         (str ''LibreRelayBot'', 5000), (str ''LibreRelayBot'', 61000)]))
        (str ''LibreRelayBot'')
       = [1000, 2000, 3000, 4000, 5000]
   \<and> fst (rateLimiter 5 60000 (snd (checks 5 60000 Map.empty
        [(str ''LibreRelayBot'', 1000), (str ''LibreRelayBot'', 2000),
         (str ''LibreRelayBot'', 3000), (str ''LibreRelayBot'', 4000),
         (str ''LibreRelayBot'', 5000), (str ''LibreRelayBot'', 61000)]))
        (str ''LibreRelayBot'') (1000 + 61000))"
proof -
  have fresh: "recorded Map.empty (str ''LibreRelayBot'') = []"
    by (simp add: recorded_def)
  have ord: "(1000::int) \<le> 2000" "(2000::int) \<le> 3000" "(3000::int) \<le> 4000"
    "(4000::int) \<le> 5000" "(5000::int) \<le> 61000" "(61000::int) \<le> 1000 + 60000"
    by simp_all
  from rate_limit_window [OF fresh ord] fresh show ?thesis by (intro conjI) (elim conjE, assumption)+
qed


lemma windowInv_recorded:
  "windowInv m hi R \<Longrightarrow>
     length (recorded R k) \<le> m \<and> sorted (recorded R k) \<and> (\<forall>t\<in>set (recorded R k). t \<le> hi)"
  by (auto simp: windowInv_def recorded_def split: option.splits)

lemma windowInv_step:
  assumes inv: "windowInv m hi R" and le: "hi \<le> now"
  shows "windowInv m now (snd (rateLimiter m w R k now))"
  unfolding windowInv_def
proof (intro allI impI)
  fix k' ts
  assume look: "snd (rateLimiter m w R k now) k' = Some ts"
  let ?p = "shiftOld (now - w) (recorded R k)"
  have old: "length (recorded R k) \<le> m" "sorted (recorded R k)"
    "\<forall>t\<in>set (recorded R k). t \<le> hi"
    using windowInv_recorded [OF inv, of k] by auto
  have p1: "length ?p \<le> m"
    using old(1) shiftOld_length [of "now - w" "recorded R k"] by simp
  have p2: "sorted ?p"
    using old(2) by (rule shiftOld_sorted)
  have p3: "\<forall>t\<in>set ?p. t \<le> now"
  proof
    fix t assume "t \<in> set ?p"
    then have "t \<in> set (recorded R k)"
      using shiftOld_set [of "now - w" "recorded R k"] by blast
    then show "t \<le> now" using old(3) le by fastforce
  qed
  show "length ts \<le> m \<and> sorted ts \<and> (\<forall>t\<in>set ts. t \<le> now)"
  proof (cases "k' = k")
    case True
    then have "ts = recorded (snd (rateLimiter m w R k now)) k"
      using look rateLimiter_key_Some [of m w R k now] by simp
    then have ts: "ts = (if length ?p < m then ?p @ [now] else ?p)"
      by (simp only: rateLimiter_same)
    show ?thesis using p1 p2 p3 ts by (auto simp: sorted_append)
  next
    case False
    then have "R k' = Some ts" using look by (simp add: rateLimiter_other)
    then show ?thesis using inv le unfolding windowInv_def by fastforce
  qed
qed

lemma windowInv_checks:
  "windowInv m hi R \<Longrightarrow> sorted (map snd cs) \<Longrightarrow> \<forall>c\<in>set cs. hi \<le> snd c
     \<Longrightarrow> \<exists>hi'. windowInv m hi' (snd (checks m w R cs))"
proof (induction cs arbitrary: R hi)
  case Nil
  then show ?case by auto
next
  case (Cons c cs)
  obtain k now where c: "c = (k, now)" by (cases c)
  have 1: "windowInv m now (snd (rateLimiter m w R k now))"
    using Cons.prems c by (intro windowInv_step [of m hi]) auto
  have 2: "sorted (map snd cs)" "\<forall>c\<in>set cs. now \<le> snd c"
    using Cons.prems c by auto
  from Cons.IH [OF 1 2] show ?case by (simp add: c Let_def)
qed

lemma windowInv_empty: "windowInv m hi Map.empty"
  by (simp add: windowInv_def)

lemma length_checks:
  "\<forall>k. length (recorded R k) \<le> m \<Longrightarrow> length (recorded (snd (checks m w R cs)) key) \<le> m"
proof (induction cs arbitrary: R)
  case Nil
  then show ?case by simp
next
  case (Cons c cs)
  obtain k now where c: "c = (k, now)" by (cases c)
  have "\<forall>k'. length (recorded (snd (rateLimiter m w R k now)) k') \<le> m"
  proof
    fix k'
    show "length (recorded (snd (rateLimiter m w R k now)) k') \<le> m"
    proof (cases "k' = k")
      case True
      have "length (shiftOld (now - w) (recorded R k)) \<le> m"
        using Cons.prems shiftOld_length [of "now - w" "recorded R k"] le_trans by blast
      then show ?thesis by (simp add: True rateLimiter_same)
    next
      case False
      then have "recorded (snd (rateLimiter m w R k now)) k' = recorded R k'"
        by (simp add: recorded_def rateLimiter_other)
      then show ?thesis using Cons.prems by simp
    qed
  qed
  from Cons.IH [OF this] show ?case by (simp add: c Let_def)
qed

text \<open>
  C10, as stated: after every check the recorded sequence of every key is in non-decreasing
  order. The limiter appends the clock reading as it is: checks at readings 100000, 50000
  and 120000 leave the sequence 100000, 50000, 120000.
\<close>

theorem rate_limiter_order_counterexample:
  "recorded (snd (checks 5 60000 Map.empty
       [(str ''LibreRelayBot'', 100000), (str ''LibreRelayBot'', 50000),
        (str ''LibreRelayBot'', 120000)])) (str ''LibreRelayBot'')
     = [100000, 50000, 120000]
   \<and> \<not> sorted (recorded (snd (checks 5 60000 Map.empty
       [(str ''LibreRelayBot'', 100000), (str ''LibreRelayBot'', 50000),
        (str ''LibreRelayBot'', 120000)])) (str ''LibreRelayBot''))"
proof -
  let ?k = "str ''LibreRelayBot''"
  define R1 where "R1 = snd (rateLimiter 5 60000 Map.empty ?k 100000)"
  define R2 where "R2 = snd (rateLimiter 5 60000 R1 ?k 50000)"
  define R3 where "R3 = snd (rateLimiter 5 60000 R2 ?k 120000)"
  have r0: "recorded Map.empty ?k = []" by (simp add: recorded_def)
  have r1: "recorded R1 ?k = [100000]"
    unfolding R1_def using accept_step(2) [OF r0, of 100000 60000 5] by simp
  have r2: "recorded R2 ?k = [100000, 50000]"
    unfolding R2_def using accept_step(2) [OF r1, of 50000 60000 5] by simp
  have r3: "recorded R3 ?k = [100000, 50000, 120000]"
    unfolding R3_def by (simp add: rateLimiter_same r2)
  have fin: "snd (checks 5 60000 Map.empty [(?k, 100000), (?k, 50000), (?k, 120000)]) = R3"
    by (simp only: checks_Cons checks.simps(1) snd_conv R1_def R2_def R3_def)
  show ?thesis by (simp only: fin r3) simp
qed

text \<open>
  C10, amended: after any series of checks on a new limiter the sequence recorded for every
  key has at most \<open>maxRequests\<close> entries; it is in non-decreasing order whenever the clock
  readings of the checks do not go back; a reading is appended only when fewer than
  \<open>maxRequests\<close> entries are left after pruning.
\<close>

theorem rate_limiter_invariant:
  "length (recorded (snd (checks m w Map.empty cs)) key) \<le> m
   \<and> (sorted (map snd cs) \<longrightarrow> sorted (recorded (snd (checks m w Map.empty cs)) key))
   \<and> recorded (snd (rateLimiter m w R key now)) key =
       (if length (shiftOld (now - w) (recorded R key)) < m
        then shiftOld (now - w) (recorded R key) @ [now]
        else shiftOld (now - w) (recorded R key))"
proof (intro conjI impI)
  show "length (recorded (snd (checks m w Map.empty cs)) key) \<le> m"
    by (rule length_checks) (simp add: recorded_def)
  show "sorted (recorded (snd (checks m w Map.empty cs)) key)" if clock: "sorted (map snd cs)"
  proof -
    have "\<exists>hi. windowInv m hi (snd (checks m w Map.empty cs))"
    proof (cases cs)
      case Nil
      then show ?thesis using windowInv_empty by auto
    next
      case (Cons c cs')
      have "\<forall>c'\<in>set cs. snd c \<le> snd c'" using clock Cons by auto
      from windowInv_checks [OF windowInv_empty [of m "snd c"] clock this, of w]
      show ?thesis .
    qed
    then show ?thesis using windowInv_recorded by blast
  qed
  show "recorded (snd (rateLimiter m w R key now)) key =
       (if length (shiftOld (now - w) (recorded R key)) < m
        then shiftOld (now - w) (recorded R key) @ [now]
        else shiftOld (now - w) (recorded R key))"
    by (rule rateLimiter_same)
qed

theorem rate_limiter_invariant_witness:
  "sorted (map snd [(str ''a'', 10::int), (str ''b'', 20), (str ''a'', 30)])
   \<and> length (recorded (snd (checks 5 60000 Map.empty
        [(str ''a'', 10), (str ''b'', 20), (str ''a'', 30)])) (str ''a'')) \<le> 5
   \<and> sorted (recorded (snd (checks 5 60000 Map.empty
        [(str ''a'', 10), (str ''b'', 20), (str ''a'', 30)])) (str ''a''))"
proof -
  have clock: "sorted (map snd [(str ''a'', 10::int), (str ''b'', 20), (str ''a'', 30)])"
    by simp
  from rate_limiter_invariant
    [where cs = "[(str ''a'', 10), (str ''b'', 20), (str ''a'', 30)]"
       and m = 5 and w = 60000 and key = "str ''a''" and R = Map.empty and now = 10]
  show ?thesis using clock by blast
qed

section \<open>Publishing and the message handler\<close>

lemma fulfilled_publishToRelay: "fulfilled (fst (publishToRelay url ev b)) \<longleftrightarrow> b = Accepts"
  by (cases b) simp_all

lemma rejected_publishToRelay: "rejected (fst (publishToRelay url ev b)) \<longleftrightarrow> b \<noteq> Accepts"
  by (cases b) simp_all

lemma attempted_append: "attempted (xs @ ys) = attempted xs @ attempted ys"
  by (induction xs rule: attempted.induct) simp_all

lemma attempted_publishToRelay: "attempted (snd (publishToRelay url ev b)) = [url]"
  by (cases b) simp_all

lemma attempted_concat:
  "attempted (concat (map (\<lambda>i. snd (publishToRelay (f i) ev (net i))) is)) = map f is"
  by (induction "is") (simp_all add: attempted_append attempted_publishToRelay)

lemma publishToRelays_result:
  "fst (publishToRelays rl net ev) =
     Inr \<lparr>success = 0 < length (filter (\<lambda>i. net i = Accepts) [0..<length rl]),
          published = length (filter (\<lambda>i. net i = Accepts) [0..<length rl]),
          failed = length (filter (\<lambda>i. net i \<noteq> Accepts) [0..<length rl])\<rparr>"
  by (simp add: publishToRelays_def Let_def filter_map comp_def
        fulfilled_publishToRelay rejected_publishToRelay)

lemma publishToRelays_attempted: "attempted (snd (publishToRelays rl net ev)) = rl"
proof -
  have "attempted (snd (publishToRelays rl net ev)) = map (\<lambda>i. rl ! i) [0..<length rl]"
    by (simp add: publishToRelays_def Let_def comp_def attempted_concat)
  then show ?thesis by (simp add: map_nth)
qed

lemma count_split:
  "length (filter (\<lambda>i. net i = Accepts) [0..<n]) + length (filter (\<lambda>i. net i \<noteq> Accepts) [0..<n]) = n"
  using sum_length_filter_compl [of "\<lambda>i. net i = Accepts" "[0..<n]"] by simp

text \<open>
  C5: a live publish over five relays of which exactly two fail (at the connection or at
  the event) returns, as a fulfilled promise, the object with \<open>published = 3\<close> and
  \<open>failed = 2\<close> and \<open>success\<close> set; every one of the five relays was tried, so no
  failure stopped the attempts to the others.
\<close>

theorem publish_partial_failure:
  assumes live: "\<not> testMode c" and five: "length (relays c) = 5"
    and two: "length (filter (\<lambda>i. net i \<noteq> Accepts) [0..<5]) = 2"
  shows "fst (publishMessage c now net text extraTags)
           = Inr \<lparr>success = True, published = 3, failed = 2\<rparr>
       \<and> attempted (snd (publishMessage c now net text extraTags)) = relays c"
proof -
  have three: "length (filter (\<lambda>i. net i = Accepts) [0..<5]) = 3"
    using count_split [of net 5] two by simp
  have res: "fst (publishToRelays (relays c) net (buildEvent text extraTags now))
      = Inr \<lparr>success = True, published = 3, failed = 2\<rparr>"
    by (simp add: publishToRelays_result five two three)
  show ?thesis
    using live res publishToRelays_attempted [of "relays c" net "buildEvent text extraTags now"]
    by (simp add: publishMessage_def Let_def case_prod_beta)
qed

lemma publish_testMode:
  "testMode c \<Longrightarrow> publishMessage c now net text extraTags
      = (Inr \<lparr>success = True, published = 0, failed = 0\<rparr>, [FinalizeEvent (buildEvent text extraTags now)])"
  by (simp add: publishMessage_def Let_def)

lemma publish_calls:
  "filter isPublishCall (snd (publishMessage c now net text extraTags)) = [FinalizeEvent (buildEvent text extraTags now)]"
proof -
  have one: "filter isPublishCall (snd (publishToRelay url ev b)) = []" for url ev b
    by (cases b) simp_all
  have "filter isPublishCall (concat (map (\<lambda>i. snd (publishToRelay (f i) ev (net i))) is)) = []"
    for f ev "is"
    by (induction "is") (simp_all add: one)
  then have "filter isPublishCall (snd (publishToRelays rl net ev)) = []" for rl ev
    by (simp add: publishToRelays_def Let_def comp_def)
  then show ?thesis by (simp add: publishMessage_def Let_def case_prod_beta)
qed

lemma snd_postToNostr:
  "snd (postToNostr b c now net m) =
     (if sanitizeMessage m = [] then [] else snd (publishMessage c now net (sanitizeMessage m) []))"
  by (simp add: postToNostr_def Let_def split: prod.splits sum.splits)

lemma handle_approved:
  assumes "from = targetBot (bridgeConfig b)"
    and "fst (rateLimiter 5 60000 (rateLimiterRequests b) from now)"
    and "sanitizeMessage m \<noteq> []" and "nostrClient b = Some c"
  shows "snd (handleIRCMessage b now net from to m)
           = snd (publishMessage c now net (sanitizeMessage m) [])"
  using assms by (simp add: handleIRCMessage_def Let_def snd_postToNostr)

lemma handle_dropped:
  assumes "\<not> (from = targetBot (bridgeConfig b)
      \<and> fst (rateLimiter 5 60000 (rateLimiterRequests b) from now)
      \<and> sanitizeMessage m \<noteq> [] \<and> nostrClient b \<noteq> None)"
  shows "snd (handleIRCMessage b now net from to m) = []"
proof (cases "nostrClient b")
  case None
  then show ?thesis by (simp add: handleIRCMessage_def Let_def)
next
  case (Some c)
  then show ?thesis using assms by (auto simp: handleIRCMessage_def Let_def snd_postToNostr)
qed

lemma handle_calls:
  "filter isPublishCall (snd (handleIRCMessage b now net from to m)) =
     (if from = targetBot (bridgeConfig b)
         \<and> fst (rateLimiter 5 60000 (rateLimiterRequests b) from now)
         \<and> sanitizeMessage m \<noteq> [] \<and> nostrClient b \<noteq> None
      then [FinalizeEvent (buildEvent (sanitizeMessage m) [] now)]
      else [])"
proof (cases "from = targetBot (bridgeConfig b)
         \<and> fst (rateLimiter 5 60000 (rateLimiterRequests b) from now)
         \<and> sanitizeMessage m \<noteq> [] \<and> nostrClient b \<noteq> None")
  case True
  then have f: "from = targetBot (bridgeConfig b)"
    and r: "fst (rateLimiter 5 60000 (rateLimiterRequests b) from now)"
    and s: "sanitizeMessage m \<noteq> []" and n: "nostrClient b \<noteq> None"
    by blast+
  from n obtain c where c: "nostrClient b = Some c" by auto
  have "filter isPublishCall (snd (handleIRCMessage b now net from to m))
          = [FinalizeEvent (buildEvent (sanitizeMessage m) [] now)]"
    by (simp only: handle_approved [OF f r s c] publish_calls)
  then show ?thesis by (simp only: if_P [OF True])
next
  case False
  have "snd (handleIRCMessage b now net from to m) = []"
    using False by (rule handle_dropped)
  then show ?thesis by (simp only: if_not_P [OF False] filter.simps)
qed

lemma if_single_nonempty: "((if C then [x] else []) \<noteq> []) = C"
  by simp

text \<open>
  C1, amended: a message from \<open>from\<close> to \<open>to\<close> with text \<open>rawText\<close> reaches the publisher
  if and only if \<open>from\<close> is exactly the configured target bot, the limiter admits the sender
  at that moment, the sanitized text is not empty and the publisher has been set up; the
  addressee \<open>to\<close> plays no part. A message that fails one of these has no effect beyond
  the handler's own state.
\<close>

theorem relay_decision:
  "(relayed (handleIRCMessage b now net from to (JString rawText)) \<longleftrightarrow>
      from = targetBot (bridgeConfig b)
      \<and> fst (rateLimiter 5 60000 (rateLimiterRequests b) from now)
      \<and> sanitizeMessage (JString rawText) \<noteq> []
      \<and> nostrClient b \<noteq> None)
   \<and> (\<not> relayed (handleIRCMessage b now net from to (JString rawText)) \<longrightarrow>
        snd (handleIRCMessage b now net from to (JString rawText)) = [])"
proof -
  have 1: "relayed (handleIRCMessage b now net from to (JString rawText)) \<longleftrightarrow>
      from = targetBot (bridgeConfig b)
      \<and> fst (rateLimiter 5 60000 (rateLimiterRequests b) from now)
      \<and> sanitizeMessage (JString rawText) \<noteq> []
      \<and> nostrClient b \<noteq> None"
    unfolding relayed_def handle_calls by (rule if_single_nonempty)
  then show ?thesis using handle_dropped [of "from" b now "JString rawText" net to] by blast
qed


lemma sanitize_hello: "sanitizeMessage (JString (str ''hello'')) = str ''hello''"
  by (simp add: sanitize_string str_def removeControl_def trim_def trimStart_def trimEnd_def
        isControl_def isWhiteSpace_def)

lemma fresh_accept: "fst (rateLimiter 5 60000 Map.empty k now)"
  by (simp add: rateLimiter_fst recorded_def)

lemma liveBridge_fields:
  "targetBot (bridgeConfig liveBridge) = str ''LibreRelayBot''"
  "channels (bridgeConfig liveBridge) = [str ''#SirLibre'']"
  "rateLimiterRequests liveBridge = Map.empty"
  "nostrClient liveBridge = Some liveClient"
  by (simp_all add: liveBridge_def liveClient_def initializeNostrClient_def newBridge_def
        defaultConfig_def configFor_def)

lemma otherBridge_fields:
  "targetBot (bridgeConfig otherBridge) = str ''BoostAfterBoost''"
  "channels (bridgeConfig otherBridge) = [str ''#BowlAfterBowl'']"
  "rateLimiterRequests otherBridge = Map.empty"
  "nostrClient otherBridge = Some liveClient"
  by (simp_all add: otherBridge_def liveClient_def initializeNostrClient_def newBridge_def
        configFor_def)

text \<open>
  C1, as stated: a message is relayed only if its channel is the configured one. A private
  message of the target bot to the reader's own nickname is relayed all the same.
\<close>

theorem relay_channel_counterexample:
  "relayed (handleIRCMessage liveBridge 1000 (\<lambda>i. Accepts) (str ''LibreRelayBot'')
      (str ''LibreRelayBot_Reader'') (JString (str ''hello'')))
   \<and> str ''LibreRelayBot_Reader'' \<notin> set (channels (bridgeConfig liveBridge))"
proof -
  have "relayed (handleIRCMessage liveBridge 1000 (\<lambda>i. Accepts) (str ''LibreRelayBot'')
      (str ''LibreRelayBot_Reader'') (JString (str ''hello'')))"
    unfolding relayed_def handle_calls
    by (simp add: liveBridge_fields fresh_accept sanitize_hello) (simp add: str_def)
  moreover have "str ''LibreRelayBot_Reader'' \<notin> set (channels (bridgeConfig liveBridge))"
    by (simp add: liveBridge_fields) (simp add: str_def)
  ultimately show ?thesis by blast
qed

theorem relay_decision_witness:
  "str ''LibreRelayBot'' = targetBot (bridgeConfig liveBridge)
   \<and> fst (rateLimiter 5 60000 (rateLimiterRequests liveBridge) (str ''LibreRelayBot'') 1000)
   \<and> sanitizeMessage (JString (str ''hello'')) \<noteq> []
   \<and> nostrClient liveBridge \<noteq> None
   \<and> relayed (handleIRCMessage liveBridge 1000 (\<lambda>i. Accepts) (str ''LibreRelayBot'')
        (str ''#SirLibre'') (JString (str ''hello'')))"
proof -
  have c: "str ''LibreRelayBot'' = targetBot (bridgeConfig liveBridge)"
    "fst (rateLimiter 5 60000 (rateLimiterRequests liveBridge) (str ''LibreRelayBot'') 1000)"
    "sanitizeMessage (JString (str ''hello'')) \<noteq> []"
    "nostrClient liveBridge \<noteq> None"
    by (simp_all add: liveBridge_fields fresh_accept sanitize_hello) (simp add: str_def)
  with relay_decision [of liveBridge 1000 "\<lambda>i. Accepts" "str ''LibreRelayBot''"
      "str ''#SirLibre''" "str ''hello''"]
  show ?thesis by blast
qed

text \<open>
  C2, amended: in test mode \<open>publishMessage\<close> makes no network call and returns the fixed
  object \<open>{success: true, published: 0, failed: 0}\<close>, whatever the number of relays; a live
  publish returns an object of the same shape.
\<close>

theorem dry_run_outcome:
  "(testMode c \<longrightarrow>
      fst (publishMessage c now net text extraTags)
        = Inr \<lparr>success = True, published = 0, failed = 0\<rparr>
      \<and> filter isNetworkCall (snd (publishMessage c now net text extraTags)) = [])
   \<and> (\<exists>r. fst (publishMessage c now net text extraTags) = Inr r)"
  by (simp add: publishMessage_def Let_def case_prod_beta publishToRelays_result)

theorem dry_run_outcome_witness:
  "testMode dryClient
   \<and> fst (publishMessage dryClient 1000 twoFail (str ''hello'') [])
       = Inr \<lparr>success = True, published = 0, failed = 0\<rparr>
   \<and> filter isNetworkCall (snd (publishMessage dryClient 1000 twoFail (str ''hello'') [])) = []"
proof -
  have t: "testMode dryClient" by (simp add: dryClient_def)
  with dry_run_outcome [of dryClient 1000 twoFail "str ''hello''" "[]"] show ?thesis by blast
qed

text \<open>
  C2, as stated: in test mode the outcome reports all \<open>N\<close> relays as succeeded. With the
  five default relays the outcome is not \<open>published = 5\<close>.
\<close>

theorem dry_run_counterexample:
  "length (relays dryClient) = 5
   \<and> fst (publishMessage dryClient 1000 (\<lambda>i. Accepts) (str ''hello'') [])
       \<noteq> Inr \<lparr>success = True, published = 5, failed = 0\<rparr>"
  by (simp add: publish_testMode dryClient_def defaultRelays_def)

lemma twoFail_count: "length (filter (\<lambda>i. twoFail i \<noteq> Accepts) [0..<5]) = 2"
  by (simp add: twoFail_def upt_rec)

theorem publish_partial_failure_witness:
  "\<not> testMode liveClient \<and> length (relays liveClient) = 5
   \<and> length (filter (\<lambda>i. twoFail i \<noteq> Accepts) [0..<5]) = 2
   \<and> fst (publishMessage liveClient 1000 twoFail (str ''hello'') [])
       = Inr \<lparr>success = True, published = 3, failed = 2\<rparr>
   \<and> attempted (snd (publishMessage liveClient 1000 twoFail (str ''hello'') [])) = relays liveClient"
proof -
  have h: "\<not> testMode liveClient" "length (relays liveClient) = 5"
    by (simp_all add: liveClient_def defaultRelays_def)
  from publish_partial_failure [OF h twoFail_count, of 1000 "str ''hello''" "[]"] h twoFail_count
  show ?thesis by blast
qed

text \<open>
  C8, amended: for every relayed message exactly one event is built; its content is the
  sanitized text, of at most 280 code units, and its tags are exactly the two constants
  \<open>[t, sirlibre]\<close> and \<open>[t, librerelaybot]\<close> of \<open>publishMessage\<close>, whatever channel and
  target bot are configured.
\<close>

theorem outbound_post:
  "relayed (handleIRCMessage b now net from to m) \<Longrightarrow>
     filter isPublishCall (snd (handleIRCMessage b now net from to m))
       = [FinalizeEvent \<lparr>kind = 1, content = sanitizeMessage m,
            tags = [[str ''t'', str ''sirlibre''], [str ''t'', str ''librerelaybot'']],
            created_at = now div 1000\<rparr>]
     \<and> length (sanitizeMessage m) \<le> 280"
  unfolding relayed_def handle_calls
  by (simp add: buildEvent_def length_sanitize split: if_splits)


theorem outbound_post_witness:
  "relayed (handleIRCMessage liveBridge 1000 twoFail (str ''LibreRelayBot'')
      (str ''#SirLibre'') (JString (str ''hello'')))
   \<and> filter isPublishCall (snd (handleIRCMessage liveBridge 1000 twoFail
        (str ''LibreRelayBot'') (str ''#SirLibre'') (JString (str ''hello''))))
       = [FinalizeEvent \<lparr>kind = 1, content = sanitizeMessage (JString (str ''hello'')),
            tags = [[str ''t'', str ''sirlibre''], [str ''t'', str ''librerelaybot'']],
            created_at = 1000 div 1000\<rparr>]
   \<and> length (sanitizeMessage (JString (str ''hello''))) \<le> 280"
proof -
  have r: "relayed (handleIRCMessage liveBridge 1000 twoFail (str ''LibreRelayBot'')
      (str ''#SirLibre'') (JString (str ''hello'')))"
    unfolding relayed_def handle_calls
    by (simp add: liveBridge_fields fresh_accept sanitize_hello) (simp add: str_def)
  from outbound_post [OF r] r show ?thesis by blast
qed

text \<open>
  C8, as stated: the two tags are derived from the configured channel and target bot.
  A bridge configured for \<open>#BowlAfterBowl\<close> and \<open>BoostAfterBoost\<close> still tags its posts
  \<open>sirlibre\<close> and \<open>librerelaybot\<close>.
\<close>

theorem outbound_tags_counterexample:
  "channels (bridgeConfig otherBridge) = [str ''#BowlAfterBowl'']
   \<and> targetBot (bridgeConfig otherBridge) = str ''BoostAfterBoost''
   \<and> filter isPublishCall (snd (handleIRCMessage otherBridge 1000 (\<lambda>i. Accepts)
        (str ''BoostAfterBoost'') (str ''#BowlAfterBowl'') (JString (str ''hello''))))
       = [FinalizeEvent \<lparr>kind = 1, content = str ''hello'',
            tags = [[str ''t'', str ''sirlibre''], [str ''t'', str ''librerelaybot'']],
            created_at = 1\<rparr>]"
proof -
  have "filter isPublishCall (snd (handleIRCMessage otherBridge 1000 (\<lambda>i. Accepts)
        (str ''BoostAfterBoost'') (str ''#BowlAfterBowl'') (JString (str ''hello''))))
       = [FinalizeEvent \<lparr>kind = 1, content = str ''hello'',
            tags = [[str ''t'', str ''sirlibre''], [str ''t'', str ''librerelaybot'']],
            created_at = 1\<rparr>]"
    unfolding handle_calls
    by (simp add: otherBridge_fields fresh_accept sanitize_hello buildEvent_def)
       (simp add: str_def)
  then show ?thesis by (simp only: otherBridge_fields simp_thms)
qed

section \<open>The reconnecting connection\<close>

lemmas irc_defs = startKeepAlive_def stopKeepAlive_def stopZncHealthCheck_def disconnect_def
  connect_def attemptReconnect_def reconnectCallback_def resetAndReconnect_def keepAliveTick_def
  postMessage_def onRegistered_def onError_def onClose_def onDisconnect_def
  maxReconnectAttempts_def reconnectDelay_def

lemma gaveUp_step:
  assumes "gaveUp s" and "quiet e" and "step s e = Some s'"
  shows "gaveUp s' \<and> clientsCreated s' = clientsCreated s"
  using assms by (cases e) (auto simp: gaveUp_def irc_defs Let_def split: if_splits)

lemma gaveUp_run:
  "gaveUp s \<Longrightarrow> list_all quiet es \<Longrightarrow> run s es = Some s'
     \<Longrightarrow> gaveUp s' \<and> clientsCreated s' = clientsCreated s"
proof (induction es arbitrary: s)
  case Nil
  then show ?case by simp
next
  case (Cons e es)
  from Cons.prems obtain s1 where s1: "step s e = Some s1" and rest: "run s1 es = Some s'"
    by (auto split: option.splits)
  have q: "quiet e" "list_all quiet es" using Cons.prems by simp_all
  from gaveUp_step [OF Cons.prems(1) q(1) s1]
  have g: "gaveUp s1" and c: "clientsCreated s1 = clientsCreated s" by simp_all
  from Cons.IH [OF g q(2) rest] c show ?case by simp
qed

lemma run_append:
  "run s (xs @ ys) = (case run s xs of None \<Rightarrow> None | Some s1 \<Rightarrow> run s1 ys)"
  by (induction xs arbitrary: s) (simp_all split: option.splits)

lemma first_close: "run newIRCClient [CallConnect, EvRegistered, EvClose] = Some (waiting 0)"
  by (simp add: newIRCClient_def waiting_def irc_defs Let_def)

lemma failed_round:
  "Suc k < maxReconnectAttempts \<Longrightarrow>
     run (waiting k) [TimeoutFires ReconnectTimeout reconnectDelay, EvClose]
       = Some (waiting (Suc k))"
  by (simp add: waiting_def irc_defs Let_def)

lemma last_round:
  "Suc k = maxReconnectAttempts \<Longrightarrow>
     run (waiting k) [TimeoutFires ReconnectTimeout reconnectDelay, EvClose]
       = Some \<lparr>client = Some (Suc k), isConnected = False, reconnectAttempts = Suc k,
            reconnecting = False, keepAliveInterval = False, zncHealthInterval = False,
            timeouts = [], keepAliveLive = 0, clientsCreated = Suc (Suc k)\<rparr>"
  by (simp add: waiting_def irc_defs Let_def)

lemma failedAttempts_Suc:
  "failedAttempts (Suc n)
     = failedAttempts n @ [TimeoutFires ReconnectTimeout reconnectDelay, EvClose]"
proof -
  have "concat (replicate n xs) @ xs = xs @ concat (replicate n xs)" for xs :: "irc_event list"
    by (induction n) simp_all
  then show ?thesis by (simp add: failedAttempts_def)
qed

lemma failedAttempts_waiting:
  "n < maxReconnectAttempts \<Longrightarrow> run newIRCClient (failedAttempts n) = Some (waiting n)"
proof (induction n)
  case 0
  then show ?case using first_close by (simp add: failedAttempts_def)
next
  case (Suc n)
  then have "run newIRCClient (failedAttempts n) = Some (waiting n)" by simp
  then show ?case using failed_round [of n] Suc.prems
    by (simp add: failedAttempts_Suc run_append del: run.simps)
qed

lemma failedAttempts_max:
  "run newIRCClient (failedAttempts maxReconnectAttempts) = Some exhausted"
proof -
  have w: "run newIRCClient (failedAttempts 9) = Some (waiting 9)"
    by (rule failedAttempts_waiting) (simp add: maxReconnectAttempts_def)
  have l: "run (waiting 9) [TimeoutFires ReconnectTimeout reconnectDelay, EvClose]
      = Some exhausted"
    using last_round [of 9] by (simp add: maxReconnectAttempts_def exhausted_def del: run.simps)
  have "failedAttempts maxReconnectAttempts
      = failedAttempts 9 @ [TimeoutFires ReconnectTimeout reconnectDelay, EvClose]"
    using failedAttempts_Suc [of 9] by (simp add: maxReconnectAttempts_def)
  then show ?thesis by (simp only: run_append w l option.case)
qed

lemma attemptReconnect_delay:
  "timeouts (attemptReconnect s) = timeouts s
   \<or> timeouts (attemptReconnect s) = timeouts s @ [(ReconnectTimeout, 10000)]"
  by (simp add: irc_defs)

lemma reconnectCallback_guard:
  "clientsCreated (reconnectCallback s)
     = (if isConnected s then clientsCreated s else clientsCreated s + 1)"
  by (simp add: irc_defs Let_def)

lemma attempts_bound_step:
  "reconnectAttempts s' \<le> maxReconnectAttempts"
  if "reconnectAttempts s \<le> maxReconnectAttempts" and "step s e = Some s'"
proof (cases e)
  case (TimeoutFires k d)
  then show ?thesis using that
    by (cases k) (auto simp: irc_defs Let_def split: if_splits)
qed (use that in \<open>auto simp: irc_defs Let_def split: if_splits\<close>)

lemma attempts_bound_run:
  "reconnectAttempts s \<le> maxReconnectAttempts \<Longrightarrow> run s es = Some s'
     \<Longrightarrow> reconnectAttempts s' \<le> maxReconnectAttempts"
proof (induction es arbitrary: s)
  case Nil
  then show ?case by simp
next
  case (Cons e es)
  from Cons.prems obtain s1 where s1: "step s e = Some s1" and rest: "run s1 es = Some s'"
    by (auto split: option.splits)
  from attempts_bound_step [OF Cons.prems(1) s1] have "reconnectAttempts s1 \<le> maxReconnectAttempts" .
  from Cons.IH [OF this rest] show ?case .
qed

lemma spent_step:
  assumes "maxReconnectAttempts \<le> reconnectAttempts s" and "\<not> isConnected s"
    and "quiet e" and "step s e = Some s'"
  shows "maxReconnectAttempts \<le> reconnectAttempts s' \<and> \<not> isConnected s'
       \<and> length (timeouts s') \<le> length (timeouts s) \<and> set (timeouts s') \<subseteq> set (timeouts s)"
proof (cases e)
  case (TimeoutFires k d)
  have "length (remove1 (k, d) (timeouts s)) \<le> length (timeouts s)"
    by (simp add: length_remove1)
  moreover have "set (remove1 (k, d) (timeouts s)) \<subseteq> set (timeouts s)"
    by (rule set_remove1_subset)
  ultimately show ?thesis using assms TimeoutFires
    by (cases k) (auto simp: irc_defs Let_def split: if_splits)
qed (use assms in \<open>auto simp: irc_defs Let_def split: if_splits\<close>)

lemma spent_run:
  "maxReconnectAttempts \<le> reconnectAttempts s \<Longrightarrow> \<not> isConnected s \<Longrightarrow> list_all quiet es
     \<Longrightarrow> run s es = Some s'
     \<Longrightarrow> maxReconnectAttempts \<le> reconnectAttempts s' \<and> \<not> isConnected s'
       \<and> length (timeouts s') \<le> length (timeouts s) \<and> set (timeouts s') \<subseteq> set (timeouts s)"
proof (induction es arbitrary: s)
  case Nil
  then show ?case by simp
next
  case (Cons e es)
  from Cons.prems obtain s1 where s1: "step s e = Some s1" and rest: "run s1 es = Some s'"
    by (auto split: option.splits)
  have q: "quiet e" "list_all quiet es" using Cons.prems by simp_all
  from spent_step [OF Cons.prems(1,2) q(1) s1]
  have a: "maxReconnectAttempts \<le> reconnectAttempts s1" and b: "\<not> isConnected s1"
    and c: "length (timeouts s1) \<le> length (timeouts s)"
    and d: "set (timeouts s1) \<subseteq> set (timeouts s)" by simp_all
  from Cons.IH [OF a b q(2) rest] c d show ?case by auto
qed

lemma attemptReconnect_below:
  "reconnectAttempts s < maxReconnectAttempts \<Longrightarrow> \<not> reconnecting s \<Longrightarrow>
     timeouts (attemptReconnect s) = timeouts s @ [(ReconnectTimeout, 10000)]
     \<and> reconnectAttempts (attemptReconnect s) = reconnectAttempts s + 1"
  by (simp add: irc_defs)

lemma attemptReconnect_spent:
  "maxReconnectAttempts \<le> reconnectAttempts s \<Longrightarrow> timeouts (attemptReconnect s) = timeouts s"
  by (simp add: irc_defs)


text \<open>
  C6, as stated: after ten failed attempts the connection stays disconnected until an
  operator steps in. It does not: the bridge's own \<open>uncaughtException\<close> handler calls
  \<open>resetAndReconnect\<close> on a null-reference error, with no operator. From the connection that
  has used up its ten attempts this sets the counter to 0 and connects again; the new
  client registers, or, if it is closed, a further reconnect is scheduled.
\<close>

theorem reconnect_recovery_counterexample:
  "run newIRCClient (failedAttempts maxReconnectAttempts) = Some exhausted
   \<and> gaveUp exhausted
   \<and> run exhausted (nullReferenceRecovery @ [EvRegistered])
       = Some \<lparr>client = Some 11, isConnected = True, reconnectAttempts = 0,
            reconnecting = False, keepAliveInterval = True, zncHealthInterval = False,
            timeouts = [], keepAliveLive = 1, clientsCreated = 12\<rparr>
   \<and> run exhausted (nullReferenceRecovery @ [EvClose])
       = Some \<lparr>client = Some 11, isConnected = False, reconnectAttempts = 1,
            reconnecting = True, keepAliveInterval = False, zncHealthInterval = False,
            timeouts = [(ReconnectTimeout, 10000)], keepAliveLive = 0, clientsCreated = 12\<rparr>"
proof -
  have "gaveUp exhausted"
    by (simp add: gaveUp_def exhausted_def maxReconnectAttempts_def)
  moreover have "run exhausted (nullReferenceRecovery @ [EvRegistered])
       = Some \<lparr>client = Some 11, isConnected = True, reconnectAttempts = 0,
            reconnecting = False, keepAliveInterval = True, zncHealthInterval = False,
            timeouts = [], keepAliveLive = 1, clientsCreated = 12\<rparr>"
    by (simp add: nullReferenceRecovery_def exhausted_def irc_defs Let_def)
  moreover have "run exhausted (nullReferenceRecovery @ [EvClose])
       = Some \<lparr>client = Some 11, isConnected = False, reconnectAttempts = 1,
            reconnecting = True, keepAliveInterval = False, zncHealthInterval = False,
            timeouts = [(ReconnectTimeout, 10000)], keepAliveLive = 0, clientsCreated = 12\<rparr>"
    by (simp add: nullReferenceRecovery_def exhausted_def irc_defs Let_def)
  ultimately show ?thesis using failedAttempts_max by blast
qed

text \<open>
  C6, amended: on every run the counter of reconnect attempts stays at or below
  \<open>maxReconnectAttempts\<close> (10). Below 10, \<open>attemptReconnect\<close> (unless a reconnect is already
  in progress) counts one attempt and schedules it with the fixed delay of 10000 ms; at 10
  it schedules nothing. From any state where the counter has reached 10 and the connection
  is not connected, whatever events arrive short of a completed registration or a call of
  \<open>connect\<close> or \<open>resetAndReconnect\<close> (which the bridge's error handler also makes), the
  connection stays not connected, the counter stays at 10 and no timeout is added; once no
  timeout is left, no client is made either. Ten close-driven failures lead to such a state,
  and fewer leave a reconnect scheduled. The callback of a scheduled reconnect calls
  \<open>connect\<close> only when the connection is not registered at that moment.
\<close>

theorem reconnect_gives_up:
  "(run newIRCClient es0 = Some s0 \<longrightarrow> reconnectAttempts s0 \<le> maxReconnectAttempts)
   \<and> (reconnectAttempts sa < maxReconnectAttempts \<and> \<not> reconnecting sa \<longrightarrow>
        timeouts (attemptReconnect sa) = timeouts sa @ [(ReconnectTimeout, 10000)]
        \<and> reconnectAttempts (attemptReconnect sa) = reconnectAttempts sa + 1)
   \<and> (maxReconnectAttempts \<le> reconnectAttempts s \<longrightarrow>
        timeouts (attemptReconnect s) = timeouts s)
   \<and> (maxReconnectAttempts \<le> reconnectAttempts s \<and> \<not> isConnected s
        \<and> list_all quiet es \<and> run s es = Some s' \<longrightarrow>
        maxReconnectAttempts \<le> reconnectAttempts s' \<and> \<not> isConnected s'
        \<and> length (timeouts s') \<le> length (timeouts s)
        \<and> set (timeouts s') \<subseteq> set (timeouts s)
        \<and> (timeouts s = [] \<longrightarrow> clientsCreated s' = clientsCreated s))
   \<and> (\<forall>n<maxReconnectAttempts. \<exists>s. run newIRCClient (failedAttempts n) = Some s
        \<and> timeouts s = [(ReconnectTimeout, 10000)] \<and> \<not> isConnected s)
   \<and> (\<exists>s. run newIRCClient (failedAttempts maxReconnectAttempts) = Some s \<and> gaveUp s)
   \<and> (timeouts (attemptReconnect s) = timeouts s
        \<or> timeouts (attemptReconnect s) = timeouts s @ [(ReconnectTimeout, 10000)])
   \<and> clientsCreated (reconnectCallback s)
        = (if isConnected s then clientsCreated s else clientsCreated s + 1)"
proof (intro conjI)
  show "run newIRCClient es0 = Some s0 \<longrightarrow> reconnectAttempts s0 \<le> maxReconnectAttempts"
  proof
    assume r: "run newIRCClient es0 = Some s0"
    have "reconnectAttempts newIRCClient \<le> maxReconnectAttempts"
      by (simp add: newIRCClient_def)
    from attempts_bound_run [OF this r] show "reconnectAttempts s0 \<le> maxReconnectAttempts" .
  qed
  show "reconnectAttempts sa < maxReconnectAttempts \<and> \<not> reconnecting sa \<longrightarrow>
        timeouts (attemptReconnect sa) = timeouts sa @ [(ReconnectTimeout, 10000)]
        \<and> reconnectAttempts (attemptReconnect sa) = reconnectAttempts sa + 1"
    using attemptReconnect_below [of sa] by blast
  show "maxReconnectAttempts \<le> reconnectAttempts s \<longrightarrow>
        timeouts (attemptReconnect s) = timeouts s"
    using attemptReconnect_spent [of s] by blast
  show "maxReconnectAttempts \<le> reconnectAttempts s \<and> \<not> isConnected s
        \<and> list_all quiet es \<and> run s es = Some s' \<longrightarrow>
        maxReconnectAttempts \<le> reconnectAttempts s' \<and> \<not> isConnected s'
        \<and> length (timeouts s') \<le> length (timeouts s)
        \<and> set (timeouts s') \<subseteq> set (timeouts s)
        \<and> (timeouts s = [] \<longrightarrow> clientsCreated s' = clientsCreated s)"
  proof
    assume h: "maxReconnectAttempts \<le> reconnectAttempts s \<and> \<not> isConnected s
        \<and> list_all quiet es \<and> run s es = Some s'"
    then have a: "maxReconnectAttempts \<le> reconnectAttempts s" and b: "\<not> isConnected s"
      and q: "list_all quiet es" and r: "run s es = Some s'" by blast+
    have "timeouts s = [] \<longrightarrow> clientsCreated s' = clientsCreated s"
    proof
      assume "timeouts s = []"
      with a b have "gaveUp s" by (simp add: gaveUp_def)
      from gaveUp_run [OF this q r] show "clientsCreated s' = clientsCreated s" by simp
    qed
    with spent_run [OF a b q r]
    show "maxReconnectAttempts \<le> reconnectAttempts s' \<and> \<not> isConnected s'
        \<and> length (timeouts s') \<le> length (timeouts s)
        \<and> set (timeouts s') \<subseteq> set (timeouts s)
        \<and> (timeouts s = [] \<longrightarrow> clientsCreated s' = clientsCreated s)" by blast
  qed
  show "\<forall>n<maxReconnectAttempts. \<exists>s. run newIRCClient (failedAttempts n) = Some s
        \<and> timeouts s = [(ReconnectTimeout, 10000)] \<and> \<not> isConnected s"
    by (simp add: failedAttempts_waiting) (simp add: waiting_def reconnectDelay_def)
  show "\<exists>s. run newIRCClient (failedAttempts maxReconnectAttempts) = Some s \<and> gaveUp s"
  proof -
    have "gaveUp exhausted"
      by (simp add: gaveUp_def exhausted_def maxReconnectAttempts_def)
    with failedAttempts_max show ?thesis by blast
  qed
  show "timeouts (attemptReconnect s) = timeouts s
        \<or> timeouts (attemptReconnect s) = timeouts s @ [(ReconnectTimeout, 10000)]"
    by (rule attemptReconnect_delay)
  show "clientsCreated (reconnectCallback s)
        = (if isConnected s then clientsCreated s else clientsCreated s + 1)"
    by (rule reconnectCallback_guard)
qed

theorem reconnect_gives_up_witness:
  "run newIRCClient [CallConnect, EvRegistered, EvClose] = Some (waiting 0)
   \<and> reconnectAttempts (waiting 0) \<le> maxReconnectAttempts
   \<and> reconnectAttempts newIRCClient < maxReconnectAttempts \<and> \<not> reconnecting newIRCClient
   \<and> timeouts (attemptReconnect newIRCClient)
       = timeouts newIRCClient @ [(ReconnectTimeout, 10000)]
   \<and> maxReconnectAttempts \<le> reconnectAttempts exhausted
   \<and> timeouts (attemptReconnect exhausted) = timeouts exhausted
   \<and> \<not> isConnected exhausted
   \<and> list_all quiet [EvClose, EvError, EvDisconnect, CallPostMessage True False, EvClose]
   \<and> run exhausted [EvClose, EvError, EvDisconnect, CallPostMessage True False, EvClose]
       = Some exhausted
   \<and> 3 < maxReconnectAttempts
   \<and> (\<exists>s. run newIRCClient (failedAttempts 3) = Some s
         \<and> timeouts s = [(ReconnectTimeout, 10000)] \<and> \<not> isConnected s)"
proof -
  have h: "reconnectAttempts newIRCClient < maxReconnectAttempts" "\<not> reconnecting newIRCClient"
    "maxReconnectAttempts \<le> reconnectAttempts exhausted" "\<not> isConnected exhausted"
    "list_all quiet [EvClose, EvError, EvDisconnect, CallPostMessage True False, EvClose]"
    "run exhausted [EvClose, EvError, EvDisconnect, CallPostMessage True False, EvClose]
       = Some exhausted"
    "3 < maxReconnectAttempts"
    by (simp_all add: newIRCClient_def exhausted_def irc_defs)
  from reconnect_gives_up
    [where ?es0.0 = "[CallConnect, EvRegistered, EvClose]" and ?s0.0 = "waiting 0"
       and sa = newIRCClient and s = exhausted
       and es = "[EvClose, EvError, EvDisconnect, CallPostMessage True False, EvClose]"
       and s' = exhausted]
    h first_close
  show ?thesis by blast
qed

text \<open>
  C7: after \<open>disconnect\<close> no timer of the connection is left and no \<open>connect\<close> runs until
  the owner calls it. The code does otherwise: a connection that registered and was closed
  holds a reconnect timeout; \<open>disconnect\<close> clears the two intervals, the flag and the client,
  but not that timeout, and when it fires \<open>connect\<close> runs and makes a second client.
\<close>

theorem disconnect_leaves_reconnect_pending:
  "run newIRCClient [CallConnect, EvRegistered, EvClose, CallDisconnect]
     = Some \<lparr>client = None, isConnected = False, reconnectAttempts = 1, reconnecting = False,
          keepAliveInterval = False, zncHealthInterval = False,
          timeouts = [(ReconnectTimeout, 10000)], keepAliveLive = 0, clientsCreated = 1\<rparr>
   \<and> run newIRCClient [CallConnect, EvRegistered, EvClose, CallDisconnect,
          TimeoutFires ReconnectTimeout 10000]
     = Some \<lparr>client = Some 1, isConnected = False, reconnectAttempts = 1, reconnecting = False,
          keepAliveInterval = False, zncHealthInterval = False,
          timeouts = [], keepAliveLive = 0, clientsCreated = 2\<rparr>"
  by (simp add: newIRCClient_def irc_defs Let_def)

end
